theory Spec2Isabelle
  imports Main "HOL-Library.Word"
begin

section \<open>Data model\<close>

text \<open>
  The client of \<^verbatim>\<open>src/client.py\<close> exchanges length-prefixed JSON messages over a TCP
  socket. Bytes are 8-bit words. The type \<open>json\<close> holds the Python values that the client
  serializes and reads back: \<^verbatim>\<open>None\<close>, booleans, integers, strings, lists, tuples and
  dictionaries with string keys (the \<^verbatim>\<open>Dict[str, Any]\<close> of the signatures); a dictionary is
  an association list read with \<open>map_of\<close>. Floating-point numbers and dictionary keys that
  are not strings are outside the model.
\<close>

type_synonym byte = "8 word"

datatype json =
    JNull
  | JBool bool
  | JInt int
  | JStr string
  | JList "json list"
  | JTuple "json list"
  | JDict "(string \<times> json) list"

text \<open>
  The exceptions derived from Python's \<^verbatim>\<open>Exception\<close>. The socket, the integer conversion
  and the JSON library raise nothing else; \<open>Raised\<close> stands for any other class derived
  from \<^verbatim>\<open>Exception\<close>. Console output (\<^verbatim>\<open>print\<close>) and signals are not modelled.
\<close>

datatype exn =
    ConnectionRefusedError
  | BrokenPipeError
  | ConnectionResetError
  | OverflowError
  | TypeError
  | JSONDecodeError
  | UnicodeDecodeError
  | AttributeError
  | KeyError
  | Raised string

text \<open>
  What user code may raise: an exception derived from \<^verbatim>\<open>Exception\<close>, or one of the
  classes that derive from \<^verbatim>\<open>BaseException\<close> alone, which a handler
  \<^verbatim>\<open>except Exception\<close> does not catch.
\<close>

datatype base_exception =
    Exception exn
  | SystemExit
  | KeyboardInterrupt
  | GeneratorExit

section \<open>The socket\<close>

text \<open>
  What the endpoint does is a script carried by the socket: whether \<^verbatim>\<open>connect\<close> is
  refused, whether \<^verbatim>\<open>sendall\<close> fails, and the sequence of events that successive
  \<^verbatim>\<open>recv\<close> calls meet: a chunk of bytes that has arrived, or a reset of the connection.
  The end of the sequence is the end of the stream. The fields \<open>sent\<close> and \<open>closed\<close>
  record what the client did.
\<close>

datatype recv_event = Chunk "byte list" | Reset

record socket =
  refuses :: bool
  send_fails :: bool
  incoming :: "recv_event list"
  sent :: "byte list"
  closed :: bool

text \<open>
  \<^verbatim>\<open>recv(bufsize)\<close> returns at most \<open>bufsize\<close> bytes of the data that has arrived, leaves
  the rest for the next call, and returns \<^verbatim>\<open>b""\<close> once the stream has ended. A blocking
  socket never returns \<^verbatim>\<open>b""\<close> before the end of the stream, so an empty chunk in the
  script is skipped.
\<close>

fun recv :: "nat \<Rightarrow> recv_event list \<Rightarrow> (exn + byte list) \<times> recv_event list" where
  "recv bufsize [] = (Inr [], [])"
| "recv bufsize (Reset # es) = (Inl ConnectionResetError, es)"
| "recv bufsize (Chunk c # es) =
     (if c = [] then recv bufsize es
      else if length c \<le> bufsize then (Inr c, es)
      else (Inr (take bufsize c), Chunk (drop bufsize c) # es))"

definition connect :: "socket \<Rightarrow> (exn + unit) \<times> socket" where
  "connect s = (if refuses s then (Inl ConnectionRefusedError, s) else (Inr (), s))"

definition sendall :: "byte list \<Rightarrow> socket \<Rightarrow> (exn + unit) \<times> socket" where
  "sendall bs s =
     (if send_fails s then (Inl BrokenPipeError, s) else (Inr (), s\<lparr>sent := sent s @ bs\<rparr>))"

definition close :: "socket \<Rightarrow> socket" where
  "close s = s\<lparr>closed := True\<rparr>"

section \<open>Framing\<close>

text \<open>\<^verbatim>\<open>n.to_bytes(4, byteorder='big')\<close> raises \<^verbatim>\<open>OverflowError\<close> from \<open>2 ^ 32\<close> on.\<close>

definition to_bytes4 :: "nat \<Rightarrow> exn + byte list" where
  "to_bytes4 n =
     (if n < 2 ^ 32
      then Inr [of_nat (n div 2 ^ 24), of_nat (n div 2 ^ 16), of_nat (n div 2 ^ 8), of_nat n]
      else Inl OverflowError)"

text \<open>\<^verbatim>\<open>int.from_bytes(bs, byteorder='big')\<close> accepts any number of bytes, also none.\<close>

definition from_bytes :: "byte list \<Rightarrow> nat" where
  "from_bytes bs = foldl (\<lambda>acc b. acc * 256 + unat b) 0 bs"

text \<open>
  The JSON library is not part of the repository: \<open>dumps\<close> stands for
  \<^verbatim>\<open>json.dumps(request).encode('utf-8')\<close> and \<open>loads\<close> for
  \<^verbatim>\<open>json.loads(response_data.decode('utf-8'))\<close>; both are parameters of the model.
\<close>

type_synonym dumps = "json \<Rightarrow> exn + byte list"
type_synonym loads = "byte list \<Rightarrow> exn + json"

text \<open>Lines 56 to 58: the bytes handed to \<^verbatim>\<open>sendall\<close>.\<close>

definition encode :: "dumps \<Rightarrow> json \<Rightarrow> exn + byte list" where
  "encode dumps request =
     (case dumps request of
        Inl e \<Rightarrow> Inl e
      | Inr request_json \<Rightarrow>
          (case to_bytes4 (length request_json) of
             Inl e \<Rightarrow> Inl e
           | Inr len \<Rightarrow> Inr (len @ request_json)))"

text \<open>Lines 61 and 62: one \<^verbatim>\<open>recv(4)\<close>, whose result is read as a big-endian number.\<close>

definition decode_length_prefix :: "recv_event list \<Rightarrow> (exn + nat) \<times> recv_event list" where
  "decode_length_prefix es =
     (case recv 4 es of
        (Inl e, es') \<Rightarrow> (Inl e, es')
      | (Inr response_len_bytes, es') \<Rightarrow> (Inr (from_bytes response_len_bytes), es'))"

text \<open>
  Lines 65 to 70: the loop that accumulates the payload. It leaves when enough bytes have
  been read or when a read returns nothing.
\<close>

function recv_payload ::
  "nat \<Rightarrow> byte list \<Rightarrow> recv_event list \<Rightarrow> (exn + byte list) \<times> recv_event list" where
  "recv_payload response_len response_data es =
     (if length response_data < response_len then
        (case recv (min 4096 (response_len - length response_data)) es of
           (Inl e, es') \<Rightarrow> (Inl e, es')
         | (Inr chunk, es') \<Rightarrow>
             (if chunk = [] then (Inr response_data, es')
              else recv_payload response_len (response_data @ chunk) es'))
      else (Inr response_data, es))"
  by pat_completeness auto
termination
proof (relation "measure (\<lambda>(response_len, response_data, es). response_len - length response_data)")
  fix response_len :: nat and response_data chunk :: "byte list"
  assume "length response_data < response_len" and "chunk \<noteq> []"
  then have "0 < length chunk" and "length response_data < response_len"
    by simp_all
  then have "response_len - (length response_data + length chunk) < response_len - length response_data"
    by arith
  then show "\<And>es x es'. ((response_len, response_data @ chunk, es'), (response_len, response_data, es))
      \<in> measure (\<lambda>(response_len, response_data, es). response_len - length response_data)"
    by simp
qed simp

declare recv_payload.simps [simp del]

text \<open>Lines 61 to 74: the whole receiving side.\<close>

definition decode :: "loads \<Rightarrow> recv_event list \<Rightarrow> (exn + json) \<times> recv_event list" where
  "decode loads es =
     (case decode_length_prefix es of
        (Inl e, es1) \<Rightarrow> (Inl e, es1)
      | (Inr response_len, es1) \<Rightarrow>
          (case recv_payload response_len [] es1 of
             (Inl e, es2) \<Rightarrow> (Inl e, es2)
           | (Inr response_data, es2) \<Rightarrow> (loads response_data, es2)))"

section \<open>The command client\<close>

text \<open>The body of the \<^verbatim>\<open>try\<close> block of \<^verbatim>\<open>send_command\<close>, lines 53 to 74.\<close>

definition send_command_try :: "dumps \<Rightarrow> loads \<Rightarrow> json \<Rightarrow> socket \<Rightarrow> (exn + json) \<times> socket" where
  "send_command_try dumps loads request s =
     (case connect s of
        (Inl e, s1) \<Rightarrow> (Inl e, s1)
      | (Inr _, s1) \<Rightarrow>
          (case encode dumps request of
             Inl e \<Rightarrow> (Inl e, s1)
           | Inr message \<Rightarrow>
               (case sendall message s1 of
                  (Inl e, s2) \<Rightarrow> (Inl e, s2)
                | (Inr _, s2) \<Rightarrow>
                    (case decode loads (incoming s2) of
                       (r, es) \<Rightarrow> (r, s2\<lparr>incoming := es\<rparr>)))))"

text \<open>
  \<^verbatim>\<open>send_command\<close>: \<open>params\<close> defaults to the empty dictionary, the request is built, the
  \<^verbatim>\<open>try\<close> block runs on the socket just created, and the \<^verbatim>\<open>finally\<close> clause closes it
  whatever the block did.
\<close>

definition send_command ::
  "dumps \<Rightarrow> loads \<Rightarrow> string \<Rightarrow> (string \<times> json) list option \<Rightarrow> socket \<Rightarrow> (exn + json) \<times> socket" where
  "send_command dumps loads command params s =
     (let params' = (case params of None \<Rightarrow> [] | Some p \<Rightarrow> p);
          request = JDict [(''command'', JStr command), (''params'', JDict params')];
          (r, s') = send_command_try dumps loads request s
      in (r, close s'))"

section \<open>The test harness\<close>

record tester =
  tests_run :: int
  tests_passed :: int

definition MCPGitTester_init :: tester where
  "MCPGitTester_init = \<lparr>tests_run = 0, tests_passed = 0\<rparr>"

text \<open>
  A callable Python object, as far as \<^verbatim>\<open>run_test\<close> uses it: its truth value (what
  \<^verbatim>\<open>if validation_func:\<close> tests; an object whose class defines \<^verbatim>\<open>__bool__\<close> or
  \<^verbatim>\<open>__len__\<close> can be false), and what a call on a response does: raise, or return a value,
  of which the model keeps the truth value.
\<close>

record callable =
  truthy :: bool
  call :: "json \<Rightarrow> base_exception + bool"

text \<open>The arguments of \<^verbatim>\<open>run_test\<close>; \<open>None\<close> is the default of \<^verbatim>\<open>validation_func\<close>.\<close>

record test_case =
  name :: string
  command :: string
  params :: "(string \<times> json) list option"
  expected_status :: string
  validation_func :: "callable option"

text \<open>
  \<^verbatim>\<open>d.get(key, default)\<close>: only a dictionary has the method, so any other value raises
  \<^verbatim>\<open>AttributeError\<close>; \<^verbatim>\<open>d.get(key)\<close> has the default \<^verbatim>\<open>None\<close>.
\<close>

definition get_or :: "json \<Rightarrow> string \<Rightarrow> json \<Rightarrow> exn + json" where
  "get_or d key dflt =
     (case d of
        JDict kvs \<Rightarrow> Inr (case map_of kvs key of None \<Rightarrow> dflt | Some v \<Rightarrow> v)
      | _ \<Rightarrow> Inl AttributeError)"

definition get :: "json \<Rightarrow> string \<Rightarrow> exn + json" where
  "get d key = get_or d key JNull"

text \<open>
  Lines 126 to 128: \<^verbatim>\<open>validation_ok\<close> starts as \<^verbatim>\<open>True\<close>, and the validator is called only
  when \<^verbatim>\<open>if validation_func:\<close> finds it true.
\<close>

definition validation :: "test_case \<Rightarrow> json \<Rightarrow> base_exception + bool" where
  "validation tc response =
     (case validation_func tc of
        None \<Rightarrow> Inr True
      | Some f \<Rightarrow> (if truthy f then call f response else Inr True))"

text \<open>
  The \<^verbatim>\<open>try\<close> block of \<^verbatim>\<open>run_test\<close>, lines 115 to 137: it returns a verdict, or raises
  what \<^verbatim>\<open>send_command\<close>, \<^verbatim>\<open>response.get\<close> or the validator raised.
\<close>

definition run_test_try ::
  "dumps \<Rightarrow> loads \<Rightarrow> test_case \<Rightarrow> socket \<Rightarrow> tester \<Rightarrow> (base_exception + bool) \<times> tester" where
  "run_test_try dumps loads tc s t =
     (case fst (send_command dumps loads (command tc) (params tc) s) of
        Inl e \<Rightarrow> (Inl (Exception e), t)
      | Inr response \<Rightarrow>
          (case get response ''status'' of
             Inl e \<Rightarrow> (Inl (Exception e), t)
           | Inr status \<Rightarrow>
               (let status_ok = (status = JStr (expected_status tc)) in
                case validation tc response of
                  Inl b \<Rightarrow> (Inl b, t)
                | Inr validation_ok \<Rightarrow>
                    (if status_ok \<and> validation_ok
                     then (Inr True, t\<lparr>tests_passed := tests_passed t + 1\<rparr>)
                     else (Inr False, t)))))"

text \<open>
  \<^verbatim>\<open>run_test\<close> on the socket that this call creates: line 109, the \<^verbatim>\<open>try\<close> block, and
  the handler \<^verbatim>\<open>except Exception\<close>, which returns \<^verbatim>\<open>False\<close>. An exception that does not
  derive from \<^verbatim>\<open>Exception\<close> leaves \<^verbatim>\<open>run_test\<close>: the result is then \<open>Inl\<close> of it.
\<close>

definition run_test ::
  "dumps \<Rightarrow> loads \<Rightarrow> test_case \<Rightarrow> socket \<Rightarrow> tester \<Rightarrow> (base_exception + bool) \<times> tester" where
  "run_test dumps loads tc s t =
     (case run_test_try dumps loads tc s (t\<lparr>tests_run := tests_run t + 1\<rparr>) of
        (Inr verdict, t') \<Rightarrow> (Inr verdict, t')
      | (Inl (Exception e), t') \<Rightarrow> (Inr False, t')
      | (Inl b, t') \<Rightarrow> (Inl b, t'))"

section \<open>The test suite\<close>

text \<open>
  The Python operations of the validators of \<^verbatim>\<open>run_test_suite\<close>: the membership test
  \<^verbatim>\<open>key in r\<close>, the subscript \<^verbatim>\<open>r[key]\<close> with a string key, \<^verbatim>\<open>isinstance(v, list)\<close> and
  \<^verbatim>\<open>len(v)\<close>.
\<close>

fun substring :: "string \<Rightarrow> string \<Rightarrow> bool" where
  "substring p [] = (p = [])"
| "substring p (x # xs) = (take (length p) (x # xs) = p \<or> substring p xs)"

definition contains :: "string \<Rightarrow> json \<Rightarrow> exn + bool" where
  "contains key r =
     (case r of
        JDict kvs \<Rightarrow> Inr (map_of kvs key \<noteq> None)
      | JList xs \<Rightarrow> Inr (JStr key \<in> set xs)
      | JTuple xs \<Rightarrow> Inr (JStr key \<in> set xs)
      | JStr str \<Rightarrow> Inr (substring key str)
      | _ \<Rightarrow> Inl TypeError)"

definition subscript :: "json \<Rightarrow> string \<Rightarrow> exn + json" where
  "subscript r key =
     (case r of
        JDict kvs \<Rightarrow> (case map_of kvs key of None \<Rightarrow> Inl KeyError | Some v \<Rightarrow> Inr v)
      | _ \<Rightarrow> Inl TypeError)"

definition isinstance_list :: "json \<Rightarrow> bool" where
  "isinstance_list v = (case v of JList xs \<Rightarrow> True | _ \<Rightarrow> False)"

definition len :: "json \<Rightarrow> exn + nat" where
  "len v =
     (case v of
        JList xs \<Rightarrow> Inr (length xs)
      | JTuple xs \<Rightarrow> Inr (length xs)
      | JStr str \<Rightarrow> Inr (length str)
      | JDict kvs \<Rightarrow> Inr (length (remdups (map fst kvs)))
      | _ \<Rightarrow> Inl TypeError)"

text \<open>
  \<^verbatim>\<open>lambda r: "data" in r and isinstance(r["data"].get(key, []), list)\<close>, which the suite
  uses with the keys \<^verbatim>\<open>commits\<close>, \<^verbatim>\<open>branches\<close> and \<^verbatim>\<open>remotes\<close>.
\<close>

definition data_has_list :: "string \<Rightarrow> json \<Rightarrow> exn + bool" where
  "data_has_list key r =
     (case contains ''data'' r of
        Inl e \<Rightarrow> Inl e
      | Inr False \<Rightarrow> Inr False
      | Inr True \<Rightarrow>
          (case subscript r ''data'' of
             Inl e \<Rightarrow> Inl e
           | Inr data \<Rightarrow>
               (case get_or data key (JList []) of
                  Inl e \<Rightarrow> Inl e
                | Inr v \<Rightarrow> Inr (isinstance_list v))))"

text \<open>\<^verbatim>\<open>lambda r: len(r.get("data", {}).get("commits", [])) <= 5\<close>\<close>

definition at_most_five_commits :: "json \<Rightarrow> exn + bool" where
  "at_most_five_commits r =
     (case get_or r ''data'' (JDict []) of
        Inl e \<Rightarrow> Inl e
      | Inr data \<Rightarrow>
          (case get_or data ''commits'' (JList []) of
             Inl e \<Rightarrow> Inl e
           | Inr commits \<Rightarrow>
               (case len commits of
                  Inl e \<Rightarrow> Inl e
                | Inr n \<Rightarrow> Inr (n \<le> 5))))"

text \<open>
  A \<^verbatim>\<open>lambda\<close> is a function object, which is always true; a call runs its body, whose
  operations raise exceptions derived from \<^verbatim>\<open>Exception\<close> only.
\<close>

definition lambda :: "(json \<Rightarrow> exn + bool) \<Rightarrow> callable" where
  "lambda body =
     \<lparr>truthy = True,
      call = (\<lambda>r. case body r of Inl e \<Rightarrow> Inl (Exception e) | Inr v \<Rightarrow> Inr v)\<rparr>"

text \<open>The six calls of \<^verbatim>\<open>run_test_suite\<close>, in the order of the source.\<close>

definition suite_cases :: "test_case list" where
  "suite_cases =
     [\<lparr>name = ''Basic connectivity - Status'', command = ''status'', params = None,
        expected_status = ''success'', validation_func = None\<rparr>,
      \<lparr>name = ''Invalid command'', command = ''invalid_command'', params = None,
        expected_status = ''error'', validation_func = None\<rparr>,
      \<lparr>name = ''Get commit log (default)'', command = ''log'', params = None,
        expected_status = ''success'', validation_func = Some (lambda (data_has_list ''commits''))\<rparr>,
      \<lparr>name = ''Get commit log with count'', command = ''log'',
        params = Some [(''count'', JInt 5)],
        expected_status = ''success'', validation_func = Some (lambda at_most_five_commits)\<rparr>,
      \<lparr>name = ''List branches'', command = ''branch'', params = None,
        expected_status = ''success'', validation_func = Some (lambda (data_has_list ''branches''))\<rparr>,
      \<lparr>name = ''List remote branches'', command = ''remote'', params = None,
        expected_status = ''success'', validation_func = Some (lambda (data_has_list ''remotes''))\<rparr>]"

text \<open>
  Statements in sequence: when the first raises, the rest does not run.
\<close>

definition and_then ::
  "(base_exception + 'a) \<times> tester \<Rightarrow> (tester \<Rightarrow> (base_exception + 'b) \<times> tester) \<Rightarrow>
     (base_exception + 'b) \<times> tester" where
  "and_then r rest = (case r of (Inl b, t) \<Rightarrow> (Inl b, t) | (Inr v, t) \<Rightarrow> rest t)"

text \<open>
  \<^verbatim>\<open>run_test_suite\<close>: the calls run one after the other on the same tester, the \<open>k\<close>-th on
  the socket \<open>net k\<close> that the system hands out for it; the results of the calls are
  discarded and the two counters are returned.
\<close>

definition run_test_suite ::
  "dumps \<Rightarrow> loads \<Rightarrow> (nat \<Rightarrow> socket) \<Rightarrow> tester \<Rightarrow> (base_exception + int \<times> int) \<times> tester" where
  "run_test_suite dumps loads net t =
     and_then (run_test dumps loads (suite_cases ! 0) (net 0) t) (\<lambda>t1.
     and_then (run_test dumps loads (suite_cases ! 1) (net 1) t1) (\<lambda>t2.
     and_then (run_test dumps loads (suite_cases ! 2) (net 2) t2) (\<lambda>t3.
     and_then (run_test dumps loads (suite_cases ! 3) (net 3) t3) (\<lambda>t4.
     and_then (run_test dumps loads (suite_cases ! 4) (net 4) t4) (\<lambda>t5.
     and_then (run_test dumps loads (suite_cases ! 5) (net 5) t5) (\<lambda>t6.
       (Inr (tests_passed t6, tests_run t6), t6)))))))"

section \<open>Notions used by the statements\<close>

text \<open>
  The expectations of a test case in the words of the specification, written without the
  functions of \<^verbatim>\<open>run_test\<close>. The status of the response is the expected one:
\<close>

definition status_expected :: "test_case \<Rightarrow> json \<Rightarrow> bool" where
  "status_expected tc response =
     (case response of
        JDict kvs \<Rightarrow> map_of kvs ''status'' = Some (JStr (expected_status tc))
      | _ \<Rightarrow> False)"

text \<open>The validator, when there is one, returns true on the response:\<close>

definition validator_accepts :: "test_case \<Rightarrow> json \<Rightarrow> bool" where
  "validator_accepts tc response =
     (case validation_func tc of None \<Rightarrow> True | Some f \<Rightarrow> call f response = Inr True)"

text \<open>
  A test case satisfies its expectations on a connection when the command client returns
  a response there that passes both checks.
\<close>

definition expectations_met :: "dumps \<Rightarrow> loads \<Rightarrow> test_case \<Rightarrow> socket \<Rightarrow> bool" where
  "expectations_met dumps loads tc s =
     (case fst (send_command dumps loads (command tc) (params tc) s) of
        Inl e \<Rightarrow> False
      | Inr response \<Rightarrow> status_expected tc response \<and> validator_accepts tc response)"

text \<open>A validator that is present but false, which \<^verbatim>\<open>if validation_func:\<close> passes over:\<close>

definition validator_skipped :: "test_case \<Rightarrow> bool" where
  "validator_skipped tc = (case validation_func tc of None \<Rightarrow> False | Some f \<Rightarrow> \<not> truthy f)"

text \<open>
  The exception, if any, that a true validator raises on the response and that does not
  derive from \<^verbatim>\<open>Exception\<close>:
\<close>

definition validator_escape :: "test_case \<Rightarrow> json \<Rightarrow> base_exception option" where
  "validator_escape tc response =
     (case validation_func tc of
        None \<Rightarrow> None
      | Some f \<Rightarrow>
          (if truthy f
           then (case call f response of
                   Inr v \<Rightarrow> None
                 | Inl (Exception e) \<Rightarrow> None
                 | Inl b \<Rightarrow> Some b)
           else None))"

text \<open>
  A test passes on a connection when the command client returns a response there whose
  status is the expected one and whose validator, unless it is absent or passed over,
  returns true.
\<close>

definition test_passes :: "dumps \<Rightarrow> loads \<Rightarrow> test_case \<Rightarrow> socket \<Rightarrow> bool" where
  "test_passes dumps loads tc s =
     (case fst (send_command dumps loads (command tc) (params tc) s) of
        Inl e \<Rightarrow> False
      | Inr response \<Rightarrow>
          status_expected tc response \<and> (validator_skipped tc \<or> validator_accepts tc response))"

text \<open>
  The exception that leaves \<^verbatim>\<open>run_test\<close>, if any: the one that the validator raises on
  a dictionary response and that does not derive from \<^verbatim>\<open>Exception\<close>.
\<close>

definition test_escapes :: "dumps \<Rightarrow> loads \<Rightarrow> test_case \<Rightarrow> socket \<Rightarrow> base_exception option" where
  "test_escapes dumps loads tc s =
     (case fst (send_command dumps loads (command tc) (params tc) s) of
        Inl e \<Rightarrow> None
      | Inr response \<Rightarrow>
          (case response of JDict kvs \<Rightarrow> validator_escape tc response | _ \<Rightarrow> None))"

text \<open>
  A validator in the way of the suite: none, or an object that is true and whose calls
  raise exceptions derived from \<^verbatim>\<open>Exception\<close> only.
\<close>

definition plain_validator :: "test_case \<Rightarrow> bool" where
  "plain_validator tc =
     (case validation_func tc of
        None \<Rightarrow> True
      | Some f \<Rightarrow> truthy f \<and> (\<forall>r. call f r \<notin> {Inl SystemExit, Inl KeyboardInterrupt, Inl GeneratorExit}))"

text \<open>
  The tester states that a call of \<^verbatim>\<open>run_test\<close> goes through: on entry, after line 109,
  and when the call ends. The states of a sequence of calls follow one another, up to the
  call that raises, if one does.
\<close>

definition run_test_states ::
  "dumps \<Rightarrow> loads \<Rightarrow> test_case \<Rightarrow> socket \<Rightarrow> tester \<Rightarrow> tester list" where
  "run_test_states dumps loads tc s t =
     [t, t\<lparr>tests_run := tests_run t + 1\<rparr>, snd (run_test dumps loads tc s t)]"

fun run_states :: "dumps \<Rightarrow> loads \<Rightarrow> (test_case \<times> socket) list \<Rightarrow> tester \<Rightarrow> tester list" where
  "run_states dumps loads [] t = [t]"
| "run_states dumps loads ((tc, s) # rest) t =
     run_test_states dumps loads tc s t @
     (case fst (run_test dumps loads tc s t) of
        Inl b \<Rightarrow> []
      | Inr v \<Rightarrow> run_states dumps loads rest (snd (run_test dumps loads tc s t)))"

definition suite_states :: "dumps \<Rightarrow> loads \<Rightarrow> (nat \<Rightarrow> socket) \<Rightarrow> tester \<Rightarrow> tester list" where
  "suite_states dumps loads net t =
     run_states dumps loads (zip suite_cases (map net [0..<6])) t"

text \<open>
  The tester after a sequence of calls of \<^verbatim>\<open>run_test\<close>, each on its own socket, none of
  which raises.
\<close>

fun run_all :: "dumps \<Rightarrow> loads \<Rightarrow> (test_case \<times> socket) list \<Rightarrow> tester \<Rightarrow> tester" where
  "run_all dumps loads [] t = t"
| "run_all dumps loads ((tc, s) # rest) t =
     run_all dumps loads rest (snd (run_test dumps loads tc s t))"

text \<open>
  The JSON library, from the documentation of Python's \<^verbatim>\<open>json\<close> module:
  \<^verbatim>\<open>json.dumps\<close> writes lists and tuples alike as JSON arrays, and \<^verbatim>\<open>json.loads\<close> reads
  an array as a list, an object as a dictionary, and \<^verbatim>\<open>null\<close>, the booleans, integers and
  strings as themselves. So \<open>read_back v\<close> is what \<^verbatim>\<open>json.loads(json.dumps(v))\<close> returns,
  and the values without a tuple are those that come back unchanged.
\<close>

primrec read_back :: "json \<Rightarrow> json" where
  "read_back JNull = JNull"
| "read_back (JBool b) = JBool b"
| "read_back (JInt i) = JInt i"
| "read_back (JStr str) = JStr str"
| "read_back (JList xs) = JList (map read_back xs)"
| "read_back (JTuple xs) = JList (map read_back xs)"
| "read_back (JDict kvs) = JDict (map (map_prod id read_back) kvs)"

fun tuple_free :: "json \<Rightarrow> bool" where
  "tuple_free (JList xs) = (\<forall>x \<in> set xs. tuple_free x)"
| "tuple_free (JTuple xs) = False"
| "tuple_free (JDict kvs) = (\<forall>kv \<in> set kvs. tuple_free (snd kv))"
| "tuple_free v = True"

section \<open>A JSON library for the instances\<close>

text \<open>
  The instances below run the client on concrete sockets. They use a JSON library cut
  down to a few documents, each with the text that \<^verbatim>\<open>json.dumps\<close> produces for it;
  reading a text of the table gives what \<^verbatim>\<open>json.loads\<close> gives, and any other text is
  refused, as \<^verbatim>\<open>json.loads\<close> refuses the empty text. The fourth document has a tuple
  among its parameters: \<^verbatim>\<open>{"command": "log", "params": {"range": (1, 2)}}\<close>, whose text is
  \<^verbatim>\<open>{"command": "log", "params": {"range": [1, 2]}}\<close>.
\<close>

definition json_texts :: "(json \<times> byte list) list" where
  "json_texts =
     [(JDict [(''command'', JStr ''status''), (''params'', JDict [])],
       [123, 34, 99, 111, 109, 109, 97, 110, 100, 34, 58, 32, 34, 115, 116, 97, 116, 117, 115,
        34, 44, 32, 34, 112, 97, 114, 97, 109, 115, 34, 58, 32, 123, 125, 125]),
      (JDict [(''command'', JStr ''log''), (''params'', JDict [])],
       [123, 34, 99, 111, 109, 109, 97, 110, 100, 34, 58, 32, 34, 108, 111, 103, 34, 44, 32,
        34, 112, 97, 114, 97, 109, 115, 34, 58, 32, 123, 125, 125]),
      (JDict [(''command'', JStr ''log''), (''params'', JDict [(''count'', JInt 5)])],
       [123, 34, 99, 111, 109, 109, 97, 110, 100, 34, 58, 32, 34, 108, 111, 103, 34, 44, 32,
        34, 112, 97, 114, 97, 109, 115, 34, 58, 32, 123, 34, 99, 111, 117, 110, 116, 34, 58,
        32, 53, 125, 125]),
      (JDict [(''command'', JStr ''log''),
              (''params'', JDict [(''range'', JTuple [JInt 1, JInt 2])])],
       [123, 34, 99, 111, 109, 109, 97, 110, 100, 34, 58, 32, 34, 108, 111, 103, 34, 44, 32,
        34, 112, 97, 114, 97, 109, 115, 34, 58, 32, 123, 34, 114, 97, 110, 103, 101, 34, 58,
        32, 91, 49, 44, 32, 50, 93, 125, 125]),
      (JDict [(''status'', JStr ''success'')],
       [123, 34, 115, 116, 97, 116, 117, 115, 34, 58, 32, 34, 115, 117, 99, 99, 101, 115, 115,
        34, 125]),
      (JDict [(''status'', JStr ''success''), (''data'', JList [])],
       [123, 34, 115, 116, 97, 116, 117, 115, 34, 58, 32, 34, 115, 117, 99, 99, 101, 115, 115,
        34, 44, 32, 34, 100, 97, 116, 97, 34, 58, 32, 91, 93, 125]),
      (JDict [], [123, 125])]"

definition table_dumps :: dumps where
  "table_dumps r = (case map_of json_texts r of Some bs \<Rightarrow> Inr bs | None \<Rightarrow> Inl TypeError)"

definition table_loads :: loads where
  "table_loads bs =
     (case map_of (map (\<lambda>(r, text). (text, read_back r)) json_texts) bs of
        Some r \<Rightarrow> Inr r
      | None \<Rightarrow> Inl JSONDecodeError)"

text \<open>
  A socket that accepts the connection and then delivers the events \<open>es\<close>, a socket whose
  connection is refused, and three replies that arrive whole in one chunk:
  \<^verbatim>\<open>{"status": "success"}\<close>, \<^verbatim>\<open>{"status": "success", "data": []}\<close> and \<^verbatim>\<open>{}\<close>.
\<close>

definition replying :: "recv_event list \<Rightarrow> socket" where
  "replying es = \<lparr>refuses = False, send_fails = False, incoming = es, sent = [], closed = False\<rparr>"

definition success_reply :: "recv_event list" where
  "success_reply =
     [Chunk [0, 0, 0, 21, 123, 34, 115, 116, 97, 116, 117, 115, 34, 58, 32, 34, 115, 117, 99,
             99, 101, 115, 115, 34, 125]]"

definition success_data_reply :: "recv_event list" where
  "success_data_reply =
     [Chunk [0, 0, 0, 33, 123, 34, 115, 116, 97, 116, 117, 115, 34, 58, 32, 34, 115, 117, 99,
             99, 101, 115, 115, 34, 44, 32, 34, 100, 97, 116, 97, 34, 58, 32, 91, 93, 125]]"


definition refusing :: socket where
  "refusing = \<lparr>refuses = True, send_fails = False, incoming = [], sent = [], closed = False\<rparr>"


definition exiting :: callable where
  "exiting = \<lparr>truthy = True, call = (\<lambda>r. Inl SystemExit)\<rparr>"

definition status_test :: "callable option \<Rightarrow> test_case" where
  "status_test v =
     \<lparr>name = ''Basic connectivity - Status'', command = ''status'', params = None,
      expected_status = ''success'', validation_func = v\<rparr>"


section \<open>Framing: the length prefix and the payload loop\<close>

lemma four_bytes_value:
  fixes n :: nat
  assumes "n < 2 ^ 32"
  shows "((n div 2 ^ 24 mod 256 * 256 + n div 2 ^ 16 mod 256) * 256 + n div 2 ^ 8 mod 256) * 256
           + n mod 256 = n"
proof -
  define m1 where "m1 = n div 256"
  define m2 where "m2 = m1 div 256"
  define m3 where "m3 = m2 div 256"
  have d1: "n div 2 ^ 8 = m1" by (simp add: m1_def)
  have d2: "n div 2 ^ 16 = m2"
    unfolding m2_def m1_def by (simp add: div_mult2_eq)
  have d3: "n div 2 ^ 24 = m3"
    unfolding m3_def m2_def m1_def by (simp add: div_mult2_eq)
  have "m3 < 256" using assms unfolding d3 [symmetric] by simp
  then have s3: "m3 mod 256 = m3" by simp
  have s2: "m3 * 256 + m2 mod 256 = m2" unfolding m3_def by simp
  have s1: "m2 * 256 + m1 mod 256 = m1" unfolding m2_def by simp
  have s0: "m1 * 256 + n mod 256 = n" unfolding m1_def by simp
  show ?thesis unfolding d1 d2 d3 s3 s2 s1 s0 ..
qed

lemma from_bytes_to_bytes4:
  assumes "to_bytes4 n = Inr bs"
  shows "from_bytes bs = n \<and> length bs = 4"
proof -
  from assms have n: "n < 2 ^ 32"
    by (simp add: to_bytes4_def split: if_splits)
  with assms have bs: "bs = [of_nat (n div 2 ^ 24), of_nat (n div 2 ^ 16), of_nat (n div 2 ^ 8), of_nat n]"
    by (simp add: to_bytes4_def)
  have "from_bytes bs =
    ((n div 2 ^ 24 mod 256 * 256 + n div 2 ^ 16 mod 256) * 256 + n div 2 ^ 8 mod 256) * 256 + n mod 256"
    unfolding bs from_bytes_def by (simp add: unat_of_nat)
  also have "\<dots> = n"
    by (rule four_bytes_value [OF n])
  finally have "from_bytes bs = n" .
  moreover have "length bs = 4" by (simp add: bs)
  ultimately show ?thesis ..
qed

lemma recv_chunks:
  "\<exists>b cs'. recv n (map Chunk cs) = (Inr b, map Chunk cs') \<and> concat cs = b @ concat cs' \<and>
     length b \<le> n \<and> (b = [] \<longrightarrow> n = 0 \<or> concat cs = [])"
proof (induction cs)
  case Nil
  then show ?case by simp
next
  case (Cons c cs)
  show ?case
  proof (cases "c = []")
    case True
    with Cons show ?thesis by simp
  next
    case False
    show ?thesis
    proof (cases "length c \<le> n")
      case True
      with False show ?thesis by auto
    next
      case gt: False
      with False have "recv n (map Chunk (c # cs)) = (Inr (take n c), map Chunk (drop n c # cs))"
        by simp
      moreover have "concat (c # cs) = take n c @ concat (drop n c # cs)"
        by simp
      moreover have "length (take n c) \<le> n" by simp
      moreover have "take n c = [] \<longrightarrow> n = 0" using False by (cases c) auto
      ultimately show ?thesis by blast
    qed
  qed
qed

lemma recv_payload_chunks:
  "fst (recv_payload rl acc (map Chunk cs)) = Inr (acc @ take (rl - length acc) (concat cs))"
proof (induction rl acc "map Chunk cs" arbitrary: cs rule: recv_payload.induct)
  case (1 rl acc)
  show ?case
  proof (cases "length acc < rl")
    case False
    then show ?thesis by (simp add: recv_payload.simps [of rl acc])
  next
    case True
    obtain b cs' where r: "recv (min 4096 (rl - length acc)) (map Chunk cs) = (Inr b, map Chunk cs')"
      and c: "concat cs = b @ concat cs'" and l: "length b \<le> min 4096 (rl - length acc)"
      and e: "b = [] \<longrightarrow> min 4096 (rl - length acc) = 0 \<or> concat cs = []"
      using recv_chunks by blast
    show ?thesis
    proof (cases "b = []")
      case True
      from e True \<open>length acc < rl\<close> have "concat cs = []" by (auto simp del: concat_eq_Nil_conv)
      then have "take (rl - length acc) (concat cs) = []" by (simp only: take_Nil)
      with r True \<open>length acc < rl\<close> show ?thesis
        by (simp add: recv_payload.simps [of rl acc] del: concat_eq_Nil_conv)
    next
      case False
      have "fst (recv_payload rl (acc @ b) (map Chunk cs')) =
            Inr ((acc @ b) @ take (rl - length (acc @ b)) (concat cs'))"
        using "1.hyps" [OF True r [symmetric] refl False] .
      moreover have "take (rl - length acc) (b @ concat cs') = b @ take (rl - length acc - length b) (concat cs')"
        using l by simp
      moreover have "fst (recv_payload rl acc (map Chunk cs)) = fst (recv_payload rl (acc @ b) (map Chunk cs'))"
        using r False True by (simp add: recv_payload.simps [of rl acc])
      ultimately show ?thesis using c
        by simp
    qed
  qed
qed

text \<open>
  Once the first read has returned the four bytes of the prefix, the way the rest of the
  stream is cut into chunks does not matter.
\<close>

lemma decode_first_chunk:
  assumes "4 \<le> length c"
  shows "fst (decode loads (map Chunk (c # cs))) =
           loads (take (from_bytes (take 4 c)) (drop 4 c @ concat cs))"
proof -
  from assms have ne: "c \<noteq> []" by auto
  obtain cs' where r: "recv 4 (map Chunk (c # cs)) = (Inr (take 4 c), map Chunk cs')"
    and c: "concat cs' = drop 4 c @ concat cs"
  proof (cases "length c \<le> 4")
    case True
    with ne have "recv 4 (map Chunk (c # cs)) = (Inr (take 4 c), map Chunk cs)" by simp
    moreover from True have "concat cs = drop 4 c @ concat cs" by simp
    ultimately show ?thesis using that by blast
  next
    case False
    with ne have "recv 4 (map Chunk (c # cs)) = (Inr (take 4 c), map Chunk (drop 4 c # cs))" by simp
    moreover have "concat (drop 4 c # cs) = drop 4 c @ concat cs" by simp
    ultimately show ?thesis using that by blast
  qed
  have "fst (recv_payload (from_bytes (take 4 c)) [] (map Chunk cs')) =
        Inr (take (from_bytes (take 4 c)) (concat cs'))"
    using recv_payload_chunks [of "from_bytes (take 4 c)" "[]" cs'] by simp
  then show ?thesis
    using r c by (auto simp: decode_def decode_length_prefix_def split: prod.splits sum.splits)
qed

lemma decode_whole_message:
  assumes "to_bytes4 (length payload) = Inr prefix"
  shows "fst (decode loads [Chunk (prefix @ payload)]) = loads payload"
proof -
  from from_bytes_to_bytes4 [OF assms]
  have v: "from_bytes prefix = length payload" and l: "length prefix = 4" by simp_all
  have "fst (decode loads (map Chunk ((prefix @ payload) # []))) =
        loads (take (from_bytes (take 4 (prefix @ payload))) (drop 4 (prefix @ payload) @ concat []))"
    by (rule decode_first_chunk) (simp add: l)
  then show ?thesis by (simp add: l v)
qed

lemma decode_chunking_independent:
  assumes "4 \<le> length c"
  shows "fst (decode loads (map Chunk (c # cs))) = fst (decode loads [Chunk (c @ concat cs)])"
proof -
  from assms have "4 \<le> length (c @ concat cs)" by simp
  then have "fst (decode loads (map Chunk ((c @ concat cs) # []))) =
      loads (take (from_bytes (take 4 (c @ concat cs))) (drop 4 (c @ concat cs) @ concat []))"
    by (rule decode_first_chunk)
  with decode_first_chunk [OF assms, of loads cs] assms show ?thesis by simp
qed



lemma decode_encode:
  assumes "encode dumps R = Inr message" and "dumps R = Inr payload"
  shows "fst (decode loads [Chunk message]) = loads payload"
proof -
  from assms obtain prefix where p: "to_bytes4 (length payload) = Inr prefix"
    and m: "message = prefix @ payload"
    by (auto simp: encode_def split: sum.splits)
  show ?thesis unfolding m by (rule decode_whole_message [OF p])
qed

lemma read_back_tuple_free: "tuple_free v \<Longrightarrow> read_back v = v"
proof (induction v)
  case (JList xs)
  then have "map read_back xs = xs" by (auto intro: map_idI)
  then show ?case by simp
next
  case (JDict kvs)
  have "map_prod id read_back kv = kv" if "kv \<in> set kvs" for kv
  proof -
    obtain k v where kv: "kv = (k, v)" by (cases kv)
    with that JDict.prems have "tuple_free v" by auto
    moreover from that kv have "v \<in> Basic_BNFs.snds kv" "kv \<in> set kvs" by auto
    ultimately have "read_back v = v" using JDict.IH by blast
    with kv show ?thesis by simp
  qed
  then have "map (map_prod id read_back) kvs = kvs" by (auto intro: map_idI)
  then show ?case by simp
qed simp_all

lemma read_back_changes: "\<not> tuple_free v \<Longrightarrow> read_back v \<noteq> v"
proof (induction v)
  case (JList xs)
  then obtain x where x: "x \<in> set xs" "read_back x \<noteq> x" by auto
  have "map read_back xs \<noteq> xs"
  proof
    assume "map read_back xs = xs"
    then have "map read_back xs = map id xs" by simp
    then have "read_back x = id x" using x(1) by (simp only: map_eq_conv)
    with x(2) show False by simp
  qed
  then show ?case by simp
next
  case (JDict kvs)
  then obtain kv where kv: "kv \<in> set kvs" "\<not> tuple_free (snd kv)" by auto
  obtain k v where p: "kv = (k, v)" by (cases kv)
  with kv have "v \<in> Basic_BNFs.snds kv" by simp
  with JDict.IH kv p have c: "read_back v \<noteq> v" by auto
  have "map (map_prod id read_back) kvs \<noteq> kvs"
  proof
    assume "map (map_prod id read_back) kvs = kvs"
    then have "map (map_prod id read_back) kvs = map id kvs" by simp
    then have "map_prod id read_back kv = id kv" using kv(1) by (simp only: map_eq_conv)
    with c p show False by simp
  qed
  then show ?case by simp
qed simp_all

lemma read_back_eq_iff: "(read_back v = v) = tuple_free v"
  using read_back_tuple_free read_back_changes by blast



lemma table_library:
  assumes "table_dumps v = Inr payload"
  shows "table_loads payload = Inr (read_back v)"
proof -
  from assms have m: "map_of json_texts v = Some payload"
    by (simp add: table_dumps_def split: option.splits)
  have rows: "\<forall>(r, text) \<in> set json_texts. table_loads text = Inr (read_back r)"
    by (simp add: table_loads_def json_texts_def)
  from m have "(v, payload) \<in> set json_texts"
    by (rule map_of_SomeD)
  with rows show ?thesis by blast
qed


text \<open>
  C2. Round trip: for every JSON-serializable request \<open>R\<close>, decoding the bytes produced
  by encoding \<open>R\<close> (the 4-byte big-endian length prefix followed by the serialization)
  yields a value equal to \<open>R\<close>. The request
  \<^verbatim>\<open>{"command": "log", "params": {"range": (1, 2)}}\<close> is serializable, and comes back with
  the list \<^verbatim>\<open>[1, 2]\<close> in the place of the tuple \<^verbatim>\<open>(1, 2)\<close>, which Python does not hold
  equal.
\<close>

theorem round_trip_counterexample:
  "encode table_dumps
     (JDict [(''command'', JStr ''log''),
             (''params'', JDict [(''range'', JTuple [JInt 1, JInt 2])])]) =
     Inr [0, 0, 0, 47, 123, 34, 99, 111, 109, 109, 97, 110, 100, 34, 58, 32, 34, 108, 111, 103,
          34, 44, 32, 34, 112, 97, 114, 97, 109, 115, 34, 58, 32, 123, 34, 114, 97, 110, 103,
          101, 34, 58, 32, 91, 49, 44, 32, 50, 93, 125, 125] \<and>
   fst (decode table_loads
     [Chunk [0, 0, 0, 47, 123, 34, 99, 111, 109, 109, 97, 110, 100, 34, 58, 32, 34, 108, 111,
             103, 34, 44, 32, 34, 112, 97, 114, 97, 109, 115, 34, 58, 32, 123, 34, 114, 97, 110,
             103, 101, 34, 58, 32, 91, 49, 44, 32, 50, 93, 125, 125]]) =
     Inr (JDict [(''command'', JStr ''log''),
                 (''params'', JDict [(''range'', JList [JInt 1, JInt 2])])]) \<and>
   JDict [(''command'', JStr ''log''), (''params'', JDict [(''range'', JList [JInt 1, JInt 2])])] \<noteq>
   JDict [(''command'', JStr ''log''), (''params'', JDict [(''range'', JTuple [JInt 1, JInt 2])])]"
proof -
  let ?R = "JDict [(''command'', JStr ''log''),
             (''params'', JDict [(''range'', JTuple [JInt 1, JInt 2])])]"
  have d: "table_dumps ?R = Inr [123, 34, 99, 111, 109, 109, 97, 110, 100, 34, 58, 32, 34, 108, 111, 103,
          34, 44, 32, 34, 112, 97, 114, 97, 109, 115, 34, 58, 32, 123, 34, 114, 97, 110, 103,
          101, 34, 58, 32, 91, 49, 44, 32, 50, 93, 125, 125]"
    by (simp add: table_dumps_def json_texts_def)
  have e: "encode table_dumps ?R =
     Inr [0, 0, 0, 47, 123, 34, 99, 111, 109, 109, 97, 110, 100, 34, 58, 32, 34, 108, 111, 103,
          34, 44, 32, 34, 112, 97, 114, 97, 109, 115, 34, 58, 32, 123, 34, 114, 97, 110, 103,
          101, 34, 58, 32, 91, 49, 44, 32, 50, 93, 125, 125]"
    by (simp add: encode_def d to_bytes4_def)
  from decode_encode [OF e d, of table_loads] table_library [OF d] e
  show ?thesis by simp
qed

text \<open>
  C2, as the code has it. For every request \<open>R\<close> built from \<^verbatim>\<open>None\<close>, booleans, integers,
  strings, lists, tuples and dictionaries with string keys that encodes (it is
  serializable and its serialization is shorter than \<open>2 ^ 32\<close> bytes), decoding the bytes
  produced by encoding \<open>R\<close> yields exactly what the JSON library reads back from the
  serialization of \<open>R\<close>: the framing changes nothing. With the documented behaviour of the
  library on \<open>R\<close>, the decoded value is equal to \<open>R\<close> if and only if \<open>R\<close> holds no tuple.
\<close>

theorem round_trip:
  assumes "encode dumps R = Inr message" and "dumps R = Inr payload"
  shows "fst (decode loads [Chunk message]) = loads payload \<and>
         (loads payload = Inr (read_back R) \<longrightarrow>
            (fst (decode loads [Chunk message]) = Inr R) = tuple_free R)"
proof -
  have "fst (decode loads [Chunk message]) = loads payload"
    by (rule decode_encode [OF assms])
  then show ?thesis by (simp add: read_back_eq_iff)
qed

text \<open>
  The request of the first test of the suite, \<^verbatim>\<open>{"command": "status", "params": {}}\<close>.
\<close>

theorem round_trip_witness:
  "encode table_dumps (JDict [(''command'', JStr ''status''), (''params'', JDict [])]) =
     Inr [0, 0, 0, 35, 123, 34, 99, 111, 109, 109, 97, 110, 100, 34, 58, 32, 34, 115, 116, 97,
          116, 117, 115, 34, 44, 32, 34, 112, 97, 114, 97, 109, 115, 34, 58, 32, 123, 125, 125] \<and>
   table_dumps (JDict [(''command'', JStr ''status''), (''params'', JDict [])]) =
     Inr [123, 34, 99, 111, 109, 109, 97, 110, 100, 34, 58, 32, 34, 115, 116, 97,
          116, 117, 115, 34, 44, 32, 34, 112, 97, 114, 97, 109, 115, 34, 58, 32, 123, 125, 125] \<and>
   table_loads [123, 34, 99, 111, 109, 109, 97, 110, 100, 34, 58, 32, 34, 115, 116, 97,
          116, 117, 115, 34, 44, 32, 34, 112, 97, 114, 97, 109, 115, 34, 58, 32, 123, 125, 125] =
     Inr (read_back (JDict [(''command'', JStr ''status''), (''params'', JDict [])])) \<and>
   tuple_free (JDict [(''command'', JStr ''status''), (''params'', JDict [])]) \<and>
   fst (decode table_loads
     [Chunk [0, 0, 0, 35, 123, 34, 99, 111, 109, 109, 97, 110, 100, 34, 58, 32, 34, 115, 116, 97,
          116, 117, 115, 34, 44, 32, 34, 112, 97, 114, 97, 109, 115, 34, 58, 32, 123, 125, 125]]) =
     Inr (JDict [(''command'', JStr ''status''), (''params'', JDict [])])"
proof -
  let ?R = "JDict [(''command'', JStr ''status''), (''params'', JDict [])]"
  have d: "table_dumps ?R =
     Inr [123, 34, 99, 111, 109, 109, 97, 110, 100, 34, 58, 32, 34, 115, 116, 97,
          116, 117, 115, 34, 44, 32, 34, 112, 97, 114, 97, 109, 115, 34, 58, 32, 123, 125, 125]"
    by (simp add: table_dumps_def json_texts_def)
  have e: "encode table_dumps ?R =
     Inr [0, 0, 0, 35, 123, 34, 99, 111, 109, 109, 97, 110, 100, 34, 58, 32, 34, 115, 116, 97,
          116, 117, 115, 34, 44, 32, 34, 112, 97, 114, 97, 109, 115, 34, 58, 32, 123, 125, 125]"
    by (simp add: encode_def d to_bytes4_def)
  note l = table_library [OF d]
  have t: "tuple_free ?R" by simp
  from round_trip [OF e d, of table_loads] l t
  have "fst (decode table_loads
     [Chunk [0, 0, 0, 35, 123, 34, 99, 111, 109, 109, 97, 110, 100, 34, 58, 32, 34, 115, 116, 97,
          116, 117, 115, 34, 44, 32, 34, 112, 97, 114, 97, 109, 115, 34, 58, 32, 123, 125, 125]]) =
     Inr ?R" by blast
  with e d l t show ?thesis by (intro conjI)
qed

text \<open>
  C3. Partial-read resilience: however the bytes of an encoded message are cut into
  chunks, also inside the 4-byte prefix, the receiver decodes the same response as from
  the whole message. The code reads the prefix with a single \<^verbatim>\<open>recv(4)\<close>: when the frame
  of \<^verbatim>\<open>{"status": "success"}\<close> arrives as two bytes followed by the rest, the two bytes are
  taken for the length 0, the JSON decoder gets an empty payload and the rest of the frame
  stays unread; delivered whole, the same frame gives the decoder its 21 bytes.
\<close>

theorem prefix_split_in_two_reads:
  "decode loads
     [Chunk [0, 0],
      Chunk [0, 21, 123, 34, 115, 116, 97, 116, 117, 115, 34, 58, 32, 34, 115, 117, 99, 99,
             101, 115, 115, 34, 125]] =
     (loads [],
      [Chunk [0, 21, 123, 34, 115, 116, 97, 116, 117, 115, 34, 58, 32, 34, 115, 117, 99, 99,
              101, 115, 115, 34, 125]]) \<and>
   decode loads
     [Chunk [0, 0, 0, 21, 123, 34, 115, 116, 97, 116, 117, 115, 34, 58, 32, 34, 115, 117, 99,
             99, 101, 115, 115, 34, 125]] =
     (loads [123, 34, 115, 116, 97, 116, 117, 115, 34, 58, 32, 34, 115, 117, 99, 99, 101, 115,
             115, 34, 125], [])"
  by (simp add: decode_def decode_length_prefix_def from_bytes_def recv_payload.simps)

section \<open>Release of the socket\<close>

text \<open>
  C9. On every path of \<^verbatim>\<open>send_command\<close>, whether it returns a response or raises on
  connecting, sending, receiving or decoding, the socket of the call is closed when the
  call ends.
\<close>

theorem send_command_closes_socket:
  "closed (snd (send_command dumps loads cmd ps s))"
  by (simp add: send_command_def close_def Let_def split: prod.splits)

section \<open>Runs on concrete sockets\<close>

lemma send_command_refusing:
  "fst (send_command table_dumps table_loads cmd ps refusing) = Inl ConnectionRefusedError"
  by (simp add: send_command_def send_command_try_def connect_def refusing_def Let_def)

lemma decode_success_reply:
  "fst (decode table_loads success_reply) = Inr (JDict [(''status'', JStr ''success'')])"
  by (simp add: success_reply_def decode_def decode_length_prefix_def from_bytes_def
      recv_payload.simps table_loads_def json_texts_def)

lemma decode_success_data_reply:
  "fst (decode table_loads success_data_reply) =
     Inr (JDict [(''status'', JStr ''success''), (''data'', JList [])])"
  by (simp add: success_data_reply_def decode_def decode_length_prefix_def from_bytes_def
      recv_payload.simps table_loads_def json_texts_def)


lemma send_command_replying:
  assumes "encode dumps (JDict [(''command'', JStr cmd),
             (''params'', JDict (case ps of None \<Rightarrow> [] | Some p \<Rightarrow> p))]) = Inr message"
  shows "fst (send_command dumps loads cmd ps (replying es)) = fst (decode loads es)"
  using assms
  by (simp add: send_command_def send_command_try_def connect_def sendall_def replying_def
      Let_def split: prod.splits)

lemma encode_status_request:
  "\<exists>message. encode table_dumps (JDict [(''command'', JStr ''status''), (''params'', JDict [])]) = Inr message"
  by (simp add: encode_def table_dumps_def json_texts_def to_bytes4_def)

lemma encode_log_request:
  "\<exists>message. encode table_dumps (JDict [(''command'', JStr ''log''), (''params'', JDict [])]) = Inr message"
  by (simp add: encode_def table_dumps_def json_texts_def to_bytes4_def)

lemma encode_log_count_request:
  "\<exists>message. encode table_dumps (JDict [(''command'', JStr ''log''),
      (''params'', JDict [(''count'', JInt 5)])]) = Inr message"
  by (simp add: encode_def table_dumps_def json_texts_def to_bytes4_def)

lemma send_status_success:
  "fst (send_command table_dumps table_loads (command (suite_cases ! 0)) (params (suite_cases ! 0))
     (replying success_reply)) = Inr (JDict [(''status'', JStr ''success'')])"
  using encode_status_request
  by (auto simp: suite_cases_def send_command_replying decode_success_reply)

lemma send_status_test_success:
  "fst (send_command table_dumps table_loads (command (status_test v)) (params (status_test v))
     (replying success_reply)) = Inr (JDict [(''status'', JStr ''success'')])"
  using encode_status_request
  by (auto simp: status_test_def send_command_replying decode_success_reply)


lemma send_log_success_data:
  "fst (send_command table_dumps table_loads (command (suite_cases ! 2)) (params (suite_cases ! 2))
     (replying success_data_reply)) = Inr (JDict [(''status'', JStr ''success''), (''data'', JList [])])"
  using encode_log_request
  by (auto simp: suite_cases_def send_command_replying decode_success_data_reply)

lemma send_log_count_success:
  "fst (send_command table_dumps table_loads (command (suite_cases ! 3)) (params (suite_cases ! 3))
     (replying success_reply)) = Inr (JDict [(''status'', JStr ''success'')])"
  using encode_log_count_request
  by (auto simp: suite_cases_def send_command_replying decode_success_reply)

lemma met_status_success:
  "expectations_met table_dumps table_loads (suite_cases ! 0) (replying success_reply)"
  unfolding expectations_met_def send_status_success
  by (simp add: suite_cases_def status_expected_def validator_accepts_def)

lemma met_log_count_success:
  "expectations_met table_dumps table_loads (suite_cases ! 3) (replying success_reply)"
  unfolding expectations_met_def send_log_count_success
  by (simp add: suite_cases_def status_expected_def validator_accepts_def lambda_def
      at_most_five_commits_def get_or_def len_def)

lemma not_met_refusing:
  "\<not> expectations_met table_dumps table_loads tc refusing"
  by (simp add: expectations_met_def send_command_refusing)

section \<open>Properties of a single test\<close>

lemma run_test_dict:
  assumes "fst (send_command dumps loads (command tc) (params tc) s) = Inr (JDict kvs)"
  shows "run_test dumps loads tc s t =
     (case validator_escape tc (JDict kvs) of
        Some b \<Rightarrow> (Inl b, t\<lparr>tests_run := tests_run t + 1\<rparr>)
      | None \<Rightarrow>
          if status_expected tc (JDict kvs) \<and>
             (validator_skipped tc \<or> validator_accepts tc (JDict kvs))
          then (Inr True, t\<lparr>tests_run := tests_run t + 1, tests_passed := tests_passed t + 1\<rparr>)
          else (Inr False, t\<lparr>tests_run := tests_run t + 1\<rparr>))"
proof (cases "validation_func tc")
  case None
  with assms show ?thesis
    by (auto simp: run_test_def run_test_try_def get_def get_or_def validation_def
        validator_escape_def status_expected_def validator_skipped_def validator_accepts_def
        split: option.splits)
next
  case (Some f)
  show ?thesis
  proof (cases "truthy f")
    case False
    with Some assms show ?thesis
      by (auto simp: run_test_def run_test_try_def get_def get_or_def validation_def
          validator_escape_def status_expected_def validator_skipped_def validator_accepts_def
          split: option.splits)
  next
    case True
    show ?thesis
    proof (cases "call f (JDict kvs)")
      case (Inr v)
      with True Some assms show ?thesis
        by (auto simp: run_test_def run_test_try_def get_def get_or_def validation_def
            validator_escape_def status_expected_def validator_skipped_def validator_accepts_def
            split: option.splits)
    next
      case (Inl b)
      with True Some assms show ?thesis
        by (cases b)
          (auto simp: run_test_def run_test_try_def get_def get_or_def validation_def
            validator_escape_def status_expected_def validator_skipped_def validator_accepts_def
            split: option.splits)
    qed
  qed
qed

lemma run_test_no_dict:
  assumes "fst (send_command dumps loads (command tc) (params tc) s) = Inr response"
    and "\<And>kvs. response \<noteq> JDict kvs"
  shows "run_test dumps loads tc s t = (Inr False, t\<lparr>tests_run := tests_run t + 1\<rparr>)"
proof -
  have "get response ''status'' = Inl AttributeError"
    using assms(2) by (cases response) (auto simp: get_def get_or_def)
  with assms(1) show ?thesis
    by (simp add: run_test_def run_test_try_def)
qed

lemma run_test_raised:
  assumes "fst (send_command dumps loads (command tc) (params tc) s) = Inl e"
  shows "run_test dumps loads tc s t = (Inr False, t\<lparr>tests_run := tests_run t + 1\<rparr>)"
  using assms by (simp add: run_test_def run_test_try_def)

lemma run_test_outcome:
  "run_test dumps loads tc s t =
     (case test_escapes dumps loads tc s of
        Some b \<Rightarrow> Inl b
      | None \<Rightarrow> Inr (test_passes dumps loads tc s),
      if test_passes dumps loads tc s
      then t\<lparr>tests_run := tests_run t + 1, tests_passed := tests_passed t + 1\<rparr>
      else t\<lparr>tests_run := tests_run t + 1\<rparr>)"
proof (cases "fst (send_command dumps loads (command tc) (params tc) s)")
  case (Inl e)
  then show ?thesis
    by (simp add: run_test_raised test_escapes_def test_passes_def)
next
  case (Inr response)
  show ?thesis
  proof (cases "\<exists>kvs. response = JDict kvs")
    case False
    then have n: "\<And>kvs. response \<noteq> JDict kvs" by blast
    from False have "\<not> status_expected tc response"
      by (cases response) (simp_all add: status_expected_def)
    moreover from False have "test_escapes dumps loads tc s = None"
      using Inr by (cases response) (simp_all add: test_escapes_def)
    ultimately show ?thesis
      using Inr by (simp add: run_test_no_dict [OF Inr n] test_passes_def)
  next
    case True
    then obtain kvs where r: "response = JDict kvs" by blast
    have p: "validator_escape tc (JDict kvs) = Some b \<Longrightarrow>
        \<not> (validator_skipped tc \<or> validator_accepts tc (JDict kvs))" for b
      by (auto simp: validator_escape_def validator_skipped_def validator_accepts_def
          split: option.splits if_splits)
    show ?thesis
      using Inr p unfolding r
      by (auto simp: run_test_dict [OF Inr [unfolded r]] test_escapes_def test_passes_def
          split: option.splits)
  qed
qed

lemma plain_validator_outcome:
  assumes "plain_validator tc"
  shows "test_escapes dumps loads tc s = None"
    and "test_passes dumps loads tc s = expectations_met dumps loads tc s"
proof -
  show "test_escapes dumps loads tc s = None"
  proof (cases "validation_func tc")
    case None
    then show ?thesis
      by (simp add: test_escapes_def validator_escape_def split: sum.splits json.splits)
  next
    case (Some f)
    with assms have c: "call f r \<noteq> Inl SystemExit" "call f r \<noteq> Inl KeyboardInterrupt"
      "call f r \<noteq> Inl GeneratorExit" for r
      by (simp_all add: plain_validator_def)
    have "validator_escape tc r = None" for r
      using c [of r] Some
      by (auto simp: validator_escape_def split: sum.splits base_exception.splits)
    then show ?thesis
      by (simp add: test_escapes_def split: sum.splits json.splits)
  qed
  from assms have "\<not> validator_skipped tc"
    by (simp add: plain_validator_def validator_skipped_def split: option.splits)
  then show "test_passes dumps loads tc s = expectations_met dumps loads tc s"
    by (simp add: test_passes_def expectations_met_def split: sum.splits)
qed

lemma run_test_plain:
  assumes "plain_validator tc"
  shows "run_test dumps loads tc s t =
     (Inr (expectations_met dumps loads tc s),
      if expectations_met dumps loads tc s
      then t\<lparr>tests_run := tests_run t + 1, tests_passed := tests_passed t + 1\<rparr>
      else t\<lparr>tests_run := tests_run t + 1\<rparr>)"
  by (simp add: run_test_outcome plain_validator_outcome [OF assms])

lemma lambda_plain: "validation_func tc = Some (lambda body) \<Longrightarrow> plain_validator tc"
  by (auto simp: plain_validator_def lambda_def split: sum.splits)

lemma suite_cases_plain: "k < 6 \<Longrightarrow> plain_validator (suite_cases ! k)"
proof -
  assume "k < 6"
  then have "k = 0 \<or> k = 1 \<or> k = 2 \<or> k = 3 \<or> k = 4 \<or> k = 5" by arith
  moreover have "plain_validator (suite_cases ! 0)" "plain_validator (suite_cases ! 1)"
    by (simp_all add: suite_cases_def plain_validator_def)
  moreover have "plain_validator (suite_cases ! 2)" "plain_validator (suite_cases ! 3)"
    "plain_validator (suite_cases ! 4)" "plain_validator (suite_cases ! 5)"
    by (rule lambda_plain, simp add: suite_cases_def)+
  ultimately show ?thesis by auto
qed




text \<open>
  C7. Every invocation of \<^verbatim>\<open>run_test\<close> raises the run counter by exactly one, whether
  the test passes, fails a check or meets an exception.
\<close>

theorem run_test_increments_run:
  "tests_run (snd (run_test dumps loads tc s t)) = tests_run t + 1"
  by (simp add: run_test_outcome)

text \<open>
  C8. When the validator raises an exception on the response, the test fails:
  \<^verbatim>\<open>run_test\<close> returns \<^verbatim>\<open>False\<close>, the passed counter is not incremented, and the exception
  does not leave \<^verbatim>\<open>run_test\<close>. The handler is \<^verbatim>\<open>except Exception\<close>: a validator that
  calls \<^verbatim>\<open>sys.exit()\<close> raises \<^verbatim>\<open>SystemExit\<close>, which the handler does not catch.
\<close>

theorem exiting_validator_counterexample:
  "validation_func (status_test (Some exiting)) = Some exiting \<and>
   call exiting (JDict [(''status'', JStr ''success'')]) = Inl SystemExit \<and>
   fst (send_command table_dumps table_loads (command (status_test (Some exiting)))
     (params (status_test (Some exiting))) (replying success_reply)) =
     Inr (JDict [(''status'', JStr ''success'')]) \<and>
   run_test table_dumps table_loads (status_test (Some exiting)) (replying success_reply)
     MCPGitTester_init = (Inl SystemExit, \<lparr>tests_run = 1, tests_passed = 0\<rparr>)"
proof -
  have "run_test table_dumps table_loads (status_test (Some exiting)) (replying success_reply)
     MCPGitTester_init = (Inl SystemExit, \<lparr>tests_run = 1, tests_passed = 0\<rparr>)"
    using run_test_dict [OF send_status_test_success, of "Some exiting" MCPGitTester_init]
    by (simp add: validator_escape_def status_expected_def validator_skipped_def
        validator_accepts_def status_test_def exiting_def MCPGitTester_init_def)
  then show ?thesis
    by (simp add: send_status_test_success) (simp add: status_test_def exiting_def)
qed

text \<open>
  C8, as the code has it. When the validator, called on the response, raises an
  exception derived from \<^verbatim>\<open>Exception\<close>, the test fails: \<^verbatim>\<open>run_test\<close> returns \<^verbatim>\<open>False\<close>,
  the passed counter is not incremented and the exception does not leave \<^verbatim>\<open>run_test\<close>.
  An exception that does not derive from \<^verbatim>\<open>Exception\<close> leaves \<^verbatim>\<open>run_test\<close>; the passed
  counter is not incremented then either.
\<close>

theorem validator_exception:
  assumes "validation_func tc = Some f" and "truthy f"
    and "fst (send_command dumps loads (command tc) (params tc) s) = Inr (JDict kvs)"
    and "call f (JDict kvs) = Inl b"
  shows "run_test dumps loads tc s t =
     (case b of Exception e \<Rightarrow> Inr False | _ \<Rightarrow> Inl b, t\<lparr>tests_run := tests_run t + 1\<rparr>)"
  using assms(1,2,4)
  by (cases b)
    (simp_all add: run_test_dict [OF assms(3)] validator_escape_def validator_accepts_def
      validator_skipped_def)

text \<open>
  The validator of the third test of the suite raises \<^verbatim>\<open>AttributeError\<close> on
  \<^verbatim>\<open>{"status": "success", "data": []}\<close>, whose \<^verbatim>\<open>data\<close> is a list and has no \<^verbatim>\<open>get\<close>.
\<close>

theorem validator_exception_witness:
  "validation_func (suite_cases ! 2) = Some (lambda (data_has_list ''commits'')) \<and>
   truthy (lambda (data_has_list ''commits'')) \<and>
   fst (send_command table_dumps table_loads (command (suite_cases ! 2)) (params (suite_cases ! 2))
     (replying success_data_reply)) = Inr (JDict [(''status'', JStr ''success''), (''data'', JList [])]) \<and>
   call (lambda (data_has_list ''commits''))
     (JDict [(''status'', JStr ''success''), (''data'', JList [])]) = Inl (Exception AttributeError) \<and>
   run_test table_dumps table_loads (suite_cases ! 2) (replying success_data_reply) MCPGitTester_init =
     (Inr False, MCPGitTester_init\<lparr>tests_run := tests_run MCPGitTester_init + 1\<rparr>)"
proof -
  have v: "validation_func (suite_cases ! 2) = Some (lambda (data_has_list ''commits''))"
    by (simp add: suite_cases_def)
  have t: "truthy (lambda (data_has_list ''commits''))"
    by (simp add: lambda_def)
  have r: "call (lambda (data_has_list ''commits''))
     (JDict [(''status'', JStr ''success''), (''data'', JList [])]) = Inl (Exception AttributeError)"
    by (simp add: lambda_def data_has_list_def contains_def subscript_def get_or_def)
  from validator_exception [OF v t send_log_success_data r, of MCPGitTester_init]
  have "run_test table_dumps table_loads (suite_cases ! 2) (replying success_data_reply)
      MCPGitTester_init =
     (Inr False, MCPGitTester_init\<lparr>tests_run := tests_run MCPGitTester_init + 1\<rparr>)"
    by simp
  with v t send_log_success_data r show ?thesis by (intro conjI)
qed



section \<open>Properties of the suite\<close>

lemma run_all_counters:
  assumes "\<forall>(tc, s) \<in> set xs. plain_validator tc"
  shows "tests_run (run_all dumps loads xs t) = tests_run t + int (length xs) \<and>
   tests_passed (run_all dumps loads xs t) =
     tests_passed t + int (length (filter (\<lambda>(tc, s). expectations_met dumps loads tc s) xs))"
  using assms
proof (induction xs arbitrary: t)
  case Nil
  show ?case by simp
next
  case (Cons x xs)
  obtain tc s where x: "x = (tc, s)" by (cases x)
  from Cons.prems x have p: "plain_validator tc" and r: "\<forall>(tc, s) \<in> set xs. plain_validator tc"
    by auto
  show ?case
    unfolding x using Cons.IH [OF r, of "snd (run_test dumps loads tc s t)"]
    by (simp add: run_test_plain [OF p])
qed

lemma run_states_last:
  assumes "\<forall>(tc, s) \<in> set xs. plain_validator tc"
  shows "last (run_states dumps loads xs t) = run_all dumps loads xs t"
  using assms
proof (induction xs arbitrary: t)
  case Nil
  show ?case by simp
next
  case (Cons x xs)
  obtain tc s where x: "x = (tc, s)" by (cases x)
  from Cons.prems x have p: "plain_validator tc" and r: "\<forall>(tc, s) \<in> set xs. plain_validator tc"
    by auto
  have f: "fst (run_test dumps loads tc s t) = Inr (expectations_met dumps loads tc s)"
    by (simp add: run_test_plain [OF p])
  have "run_states dumps loads xs (snd (run_test dumps loads tc s t)) \<noteq> []"
    by (cases xs) (auto simp: run_test_states_def)
  then show ?case
    unfolding x using Cons.IH [OF r] by (simp add: f)
qed

lemma run_test_counters:
  "tests_run (snd (run_test dumps loads tc s t)) = tests_run t + 1 \<and>
   (tests_passed (snd (run_test dumps loads tc s t)) = tests_passed t \<or>
    tests_passed (snd (run_test dumps loads tc s t)) = tests_passed t + 1)"
  by (simp add: run_test_outcome)

lemma run_states_invariant:
  assumes "tests_passed t \<le> tests_run t" and "u \<in> set (run_states dumps loads xs t)"
  shows "tests_passed u \<le> tests_run u"
  using assms
proof (induction xs arbitrary: t)
  case Nil
  then show ?case by simp
next
  case (Cons x xs)
  obtain tc s where x: "x = (tc, s)" by (cases x)
  let ?t' = "snd (run_test dumps loads tc s t)"
  have t': "tests_passed ?t' \<le> tests_run ?t'"
    using Cons.prems(1) run_test_counters [of dumps loads tc s t] by auto
  from Cons.prems(2) consider "u \<in> set (run_test_states dumps loads tc s t)"
    | "u \<in> set (run_states dumps loads xs ?t')"
    unfolding x by (auto split: sum.splits)
  then show ?case
  proof cases
    case 1
    then have "u = t \<or> u = t\<lparr>tests_run := tests_run t + 1\<rparr> \<or> u = ?t'"
      by (simp add: run_test_states_def)
    with Cons.prems(1) t' show ?thesis by auto
  next
    case 2
    with Cons.IH [OF t'] show ?thesis .
  qed
qed

lemma filter_keeps_all: "(length (filter P xs) = length xs) = (\<forall>x \<in> set xs. P x)"
proof (induction xs)
  case Nil
  show ?case by simp
next
  case (Cons x xs)
  have "length (filter P xs) \<le> length xs" by simp
  then have "length (filter P xs) \<noteq> Suc (length xs)" by arith
  with Cons show ?case by simp
qed

lemma suite_pairs:
  "zip suite_cases (map net [0..<6]) =
     [(suite_cases ! 0, net 0), (suite_cases ! 1, net 1), (suite_cases ! 2, net 2),
      (suite_cases ! 3, net 3), (suite_cases ! 4, net 4), (suite_cases ! 5, net 5)]"
proof -
  have "[0..<6] = [0, 1, 2, 3, 4, 5::nat]"
    by (simp add: upt_rec)
  then show ?thesis by (simp add: suite_cases_def)
qed

lemma suite_pairs_plain: "\<forall>(tc, s) \<in> set (zip suite_cases (map net [0..<6])). plain_validator tc"
  unfolding suite_pairs by (simp add: suite_cases_plain)

lemma run_test_suite_run_all:
  "run_test_suite dumps loads net t =
     (Inr (tests_passed (run_all dumps loads (zip suite_cases (map net [0..<6])) t),
           tests_run (run_all dumps loads (zip suite_cases (map net [0..<6])) t)),
      run_all dumps loads (zip suite_cases (map net [0..<6])) t)"
proof -
  have r: "and_then (run_test dumps loads (suite_cases ! k) s u) rest =
      rest (snd (run_test dumps loads (suite_cases ! k) s u))" if "k < 6" for k s u
    and rest :: "tester \<Rightarrow> (base_exception + int \<times> int) \<times> tester"
    by (simp add: and_then_def run_test_plain [OF suite_cases_plain [OF that]])
  show ?thesis
    unfolding suite_pairs by (simp add: run_test_suite_def r)
qed

lemma all_below_six:
  "(\<forall>x \<in> set (zip suite_cases (map net [0..<6])). case x of (tc, s) \<Rightarrow> P tc s) \<longleftrightarrow>
   (\<forall>k<6. P (suite_cases ! k) (net k))"
proof -
  have "(\<forall>k<6::nat. Q k) \<longleftrightarrow> Q 0 \<and> Q 1 \<and> Q 2 \<and> Q 3 \<and> Q 4 \<and> Q 5" for Q
  proof
    assume "\<forall>k<6::nat. Q k"
    then show "Q 0 \<and> Q 1 \<and> Q 2 \<and> Q 3 \<and> Q 4 \<and> Q 5" by simp
  next
    assume a: "Q 0 \<and> Q 1 \<and> Q 2 \<and> Q 3 \<and> Q 4 \<and> Q 5"
    show "\<forall>k<6::nat. Q k"
    proof (intro allI impI)
      fix k :: nat assume "k < 6"
      then have "k = 0 \<or> k = 1 \<or> k = 2 \<or> k = 3 \<or> k = 4 \<or> k = 5" by arith
      with a show "Q k" by auto
    qed
  qed
  then show ?thesis unfolding suite_pairs by simp
qed

text \<open>
  C4. At every point during and after a run of the suite on a fresh tester the passed
  counter is at most the run counter; and when the suite has completed, the two counters
  are equal exactly when every test satisfied both its status and its validation
  expectation.
\<close>

theorem aggregate_counters:
  "(\<forall>u \<in> set (suite_states dumps loads net MCPGitTester_init). tests_passed u \<le> tests_run u) \<and>
   last (suite_states dumps loads net MCPGitTester_init) =
     snd (run_test_suite dumps loads net MCPGitTester_init) \<and>
   (case fst (run_test_suite dumps loads net MCPGitTester_init) of
      Inl b \<Rightarrow> False
    | Inr (passed, run) \<Rightarrow>
        (passed = run) = (\<forall>k<6. expectations_met dumps loads (suite_cases ! k) (net k)))"
proof (intro conjI)
  show "\<forall>u \<in> set (suite_states dumps loads net MCPGitTester_init). tests_passed u \<le> tests_run u"
    unfolding suite_states_def
    using run_states_invariant [of MCPGitTester_init _ dumps loads]
    by (auto simp: MCPGitTester_init_def)
  show "last (suite_states dumps loads net MCPGitTester_init) =
     snd (run_test_suite dumps loads net MCPGitTester_init)"
    by (simp add: suite_states_def run_states_last [OF suite_pairs_plain] run_test_suite_run_all)
  let ?xs = "zip suite_cases (map net [0..<6])"
  let ?P = "\<lambda>(tc, s). expectations_met dumps loads tc s"
  have c: "tests_run (run_all dumps loads ?xs MCPGitTester_init) = int (length ?xs)"
    "tests_passed (run_all dumps loads ?xs MCPGitTester_init) = int (length (filter ?P ?xs))"
    using run_all_counters [OF suite_pairs_plain [of net], where dumps = dumps and loads = loads and t = MCPGitTester_init]
    by (simp_all add: MCPGitTester_init_def)
  have "(length (filter ?P ?xs) = length ?xs) = (\<forall>x \<in> set ?xs. ?P x)"
    by (rule filter_keeps_all)
  also have "\<dots> = (\<forall>k<6. expectations_met dumps loads (suite_cases ! k) (net k))"
    by (rule all_below_six)
  finally have "(int (length (filter ?P ?xs)) = int (length ?xs)) =
      (\<forall>k<6. expectations_met dumps loads (suite_cases ! k) (net k))"
    by simp
  then show "case fst (run_test_suite dumps loads net MCPGitTester_init) of
      Inl b \<Rightarrow> False
    | Inr (passed, run) \<Rightarrow>
        (passed = run) = (\<forall>k<6. expectations_met dumps loads (suite_cases ! k) (net k))"
    unfolding run_test_suite_run_all c by simp
qed

text \<open>
  The first test passes and the connections of the five others are refused.
\<close>

theorem aggregate_counters_witness:
  "tests_passed (snd (run_test_suite table_dumps table_loads
     (\<lambda>k. if k = 0 then replying success_reply else refusing) MCPGitTester_init)) \<le>
   tests_run (snd (run_test_suite table_dumps table_loads
     (\<lambda>k. if k = 0 then replying success_reply else refusing) MCPGitTester_init)) \<and>
   fst (run_test_suite table_dumps table_loads
     (\<lambda>k. if k = 0 then replying success_reply else refusing) MCPGitTester_init) \<noteq> Inr (6, 6) \<and>
   \<not> expectations_met table_dumps table_loads (suite_cases ! 1) refusing"
proof -
  let ?net = "\<lambda>k::nat. if k = 0 then replying success_reply else refusing"
  note a = aggregate_counters [of table_dumps table_loads ?net]
  let ?states = "suite_states table_dumps table_loads ?net MCPGitTester_init"
  have "?states \<noteq> []"
    by (simp add: suite_states_def suite_pairs run_test_states_def)
  then have "last ?states \<in> set ?states" by (rule last_in_set)
  with a have 1: "tests_passed (snd (run_test_suite table_dumps table_loads ?net MCPGitTester_init)) \<le>
    tests_run (snd (run_test_suite table_dumps table_loads ?net MCPGitTester_init))"
    by auto
  have ns: "\<not> expectations_met table_dumps table_loads (suite_cases ! 1) (?net 1)"
    by (simp add: not_met_refusing)
  then have "\<not> (\<forall>k<6. expectations_met table_dumps table_loads (suite_cases ! k) (?net k))"
    by (metis one_less_numeral_iff semiring_norm(76))
  with a have 2: "fst (run_test_suite table_dumps table_loads ?net MCPGitTester_init) \<noteq> Inr (6, 6)"
    by (auto split: prod.splits sum.splits)
  from 1 2 ns show ?thesis by simp
qed

text \<open>
  C6. An exception of the command client during a test is caught in \<^verbatim>\<open>run_test\<close>, which
  returns \<^verbatim>\<open>False\<close>; and the suite always returns after running its six tests, each
  counted as passed on its own connection alone, whatever happened to the tests before
  it.
\<close>

theorem harness_independence:
  "(fst (send_command dumps loads (command tc) (params tc) s) = Inl e \<longrightarrow>
      run_test dumps loads tc s t = (Inr False, t\<lparr>tests_run := tests_run t + 1\<rparr>)) \<and>
   fst (run_test_suite dumps loads net t) =
     Inr (tests_passed (snd (run_test_suite dumps loads net t)),
          tests_run (snd (run_test_suite dumps loads net t))) \<and>
   tests_run (snd (run_test_suite dumps loads net t)) = tests_run t + 6 \<and>
   tests_passed (snd (run_test_suite dumps loads net t)) =
     tests_passed t +
     int (length (filter (\<lambda>k. expectations_met dumps loads (suite_cases ! k) (net k)) [0..<6]))"
proof (intro conjI impI)
  assume "fst (send_command dumps loads (command tc) (params tc) s) = Inl e"
  then show "run_test dumps loads tc s t = (Inr False, t\<lparr>tests_run := tests_run t + 1\<rparr>)"
    by (rule run_test_raised)
next
  show "fst (run_test_suite dumps loads net t) =
     Inr (tests_passed (snd (run_test_suite dumps loads net t)),
          tests_run (snd (run_test_suite dumps loads net t)))"
    by (simp add: run_test_suite_run_all)
next
  let ?xs = "zip suite_cases (map net [0..<6])"
  have n: "[0..<6] = [0, 1, 2, 3, 4, 5::nat]"
    by (simp add: upt_rec)
  have "length (filter (\<lambda>(tc, s). expectations_met dumps loads tc s) ?xs) =
        length (filter (\<lambda>k. expectations_met dumps loads (suite_cases ! k) (net k)) [0..<6])"
    by (simp only: suite_pairs) (simp add: n)
  with run_all_counters [OF suite_pairs_plain [of net], where dumps = dumps and loads = loads and t = t]
  show "tests_run (snd (run_test_suite dumps loads net t)) = tests_run t + 6"
    and "tests_passed (snd (run_test_suite dumps loads net t)) =
     tests_passed t +
     int (length (filter (\<lambda>k. expectations_met dumps loads (suite_cases ! k) (net k)) [0..<6]))"
    by (simp_all add: run_test_suite_run_all suite_cases_def)
qed

text \<open>
  The connections of the first three tests are refused; the fourth test still runs, and
  passes.
\<close>

theorem harness_independence_witness:
  "fst (send_command table_dumps table_loads (command (suite_cases ! 0)) (params (suite_cases ! 0))
     refusing) = Inl ConnectionRefusedError \<and>
   run_test table_dumps table_loads (suite_cases ! 0) refusing MCPGitTester_init =
     (Inr False, MCPGitTester_init\<lparr>tests_run := tests_run MCPGitTester_init + 1\<rparr>) \<and>
   fst (run_test_suite table_dumps table_loads
     (\<lambda>k. if k = 3 then replying success_reply else refusing) MCPGitTester_init) = Inr (1, 6)"
proof -
  let ?net = "\<lambda>k::nat. if k = 3 then replying success_reply else refusing"
  note h = harness_independence [of table_dumps table_loads "suite_cases ! 0" refusing
      ConnectionRefusedError MCPGitTester_init ?net]
  have n: "[0..<6] = [0, 1, 2, 3, 4, 5::nat]"
    by (simp add: upt_rec)
  have "filter (\<lambda>k. expectations_met table_dumps table_loads (suite_cases ! k) (?net k)) [0..<6] = [3]"
    unfolding n by (simp add: not_met_refusing met_log_count_success)
  with h have "tests_run (snd (run_test_suite table_dumps table_loads ?net MCPGitTester_init)) = 6"
    and "tests_passed (snd (run_test_suite table_dumps table_loads ?net MCPGitTester_init)) = 1"
    by (simp_all add: MCPGitTester_init_def)
  with h have "fst (run_test_suite table_dumps table_loads ?net MCPGitTester_init) = Inr (1, 6)"
    by simp
  with h send_command_refusing show ?thesis by simp
qed

end
